theory Spec2Isabelle
  imports Main "HOL-Library.AList" "HOL-Library.Sublist"
begin

section \<open>The User collection\<close>

text \<open>
  The model file declares one collection, \<open>User\<close>. A document carries its \<open>_id\<close>
  (here \<open>uid\<close>), the username, the password hash, two arrays of ObjectIds, an array of
  interest strings and an array of notification subdocuments. The arrays are arrays: the
  schema puts no uniqueness constraint on their entries, so they are lists here.

  A stored ObjectId is identified with the string \<open>toString()\<close> gives for it. The
  \<open>timestamp\<close> of a notification defaults to \<open>Date.now\<close>; the clock reading is an
  argument of every handler that pushes one. The \<open>_id\<close> that the store generates for a
  notification subdocument is left out.
\<close>

type_synonym oid = string

record notification =
  message :: string
  timestamp :: nat

record user =
  uid :: oid
  username :: string
  password :: string
  friends :: "oid list"
  friendRequests :: "oid list"
  interests :: "string list"
  notifications :: "notification list"

text \<open>
  The collection is the list of its documents in natural order, the order in which
  \<open>User.find\<close> returns them. A handler answers with a status code and a message.
\<close>

type_synonym db = "user list"

type_synonym reply = "nat \<times> string"

text \<open>The document with a given ObjectId.\<close>

definition findById :: "oid \<Rightarrow> db \<Rightarrow> user option" where
  "findById i d = find (\<lambda>u. uid u = i) d"

text \<open>
  \<open>doc.save()\<close> sends the modified paths of the loaded document to the store: an array
  that was pushed to is sent as a push onto the stored array, an array that was reassigned
  is sent as its new value. \<open>save i f\<close> applies the modification \<open>f\<close> to the stored document
  with id \<open>i\<close>. Storage failures are not part of the model.
\<close>

definition save :: "oid \<Rightarrow> (user \<Rightarrow> user) \<Rightarrow> db \<Rightarrow> db" where
  "save i f d = map (\<lambda>u. if uid u = i then f u else u) d"

section \<open>The friend workflow (routes/friend.js)\<close>

text \<open>
  A request carries its ids as strings, \<open>userId\<close> and \<open>friendId\<close>. Two functions of the
  driver are parameters of every handler:
  \<^item> \<open>isValid\<close> is \<open>mongoose.Types.ObjectId.isValid\<close>, the first check of every handler;
  \<^item> \<open>cast\<close> turns a request string into the ObjectId it denotes. The store applies it
    wherever the code hands it a string: in \<open>User.findById\<close>, in the \<open>$ne\<close> of a query
    and in a \<open>push\<close> onto an array of ObjectIds. Several spellings of a string may denote
    one ObjectId.

  Where the code compares a request string itself, with \<open>===\<close>,
  \<open>array.includes(...)\<close> or \<open>id.toString() !== ...\<close>, the string is compared as it was
  sent, with the other request string or with the \<open>toString()\<close> of the stored id. The
  model keeps the two kinds of comparison apart as the source has them.

  The handlers are modelled behind the \<open>auth\<close> middleware.
\<close>

definition post_request ::
  "(string \<Rightarrow> bool) \<Rightarrow> (string \<Rightarrow> oid) \<Rightarrow> nat \<Rightarrow> string \<Rightarrow> string \<Rightarrow> db \<Rightarrow> reply \<times> db" where
  "post_request isValid cast now userId friendId d =
    (if \<not> isValid userId \<or> \<not> isValid friendId then ((400, ''Invalid user IDs''), d)
     else if userId = friendId then ((400, ''You cannot add yourself as a friend.''), d)
     else case findById (cast userId) d of
       None \<Rightarrow> ((404, ''User not found''), d)
     | Some user \<Rightarrow>
        (case findById (cast friendId) d of
           None \<Rightarrow> ((404, ''User not found''), d)
         | Some friend \<Rightarrow>
            if friendId \<in> set (friends user) \<or> userId \<in> set (friends friend)
            then ((400, ''You are already friends.''), d)
            else if userId \<in> set (friendRequests friend)
            then ((400, ''Friend request already sent.''), d)
            else ((200, ''Friend request sent''),
                  save (uid friend)
                    (\<lambda>u. u\<lparr>friendRequests := friendRequests u @ [cast userId],
                       notifications := notifications u @
                         [\<lparr>message = username user @ '' has sent you a friend request.'',
                           timestamp = now\<rparr>]\<rparr>) d)))"

definition post_accept ::
  "(string \<Rightarrow> bool) \<Rightarrow> (string \<Rightarrow> oid) \<Rightarrow> nat \<Rightarrow> string \<Rightarrow> string \<Rightarrow> db \<Rightarrow> reply \<times> db" where
  "post_accept isValid cast now userId friendId d =
    (if \<not> isValid userId \<or> \<not> isValid friendId then ((400, ''Invalid user IDs''), d)
     else case findById (cast userId) d of
       None \<Rightarrow> ((404, ''User not found''), d)
     | Some user \<Rightarrow>
        (case findById (cast friendId) d of
           None \<Rightarrow> ((404, ''User not found''), d)
         | Some friend \<Rightarrow>
            if friendId \<notin> set (friendRequests user)
            then ((400, ''No friend request from this user.''), d)
            else ((200, ''Friend request accepted.''),
                  save (uid friend)
                    (\<lambda>u. u\<lparr>friends := friends u @ [cast userId],
                       notifications := notifications u @
                         [\<lparr>message = username user @ '' has accepted your friend request.'',
                           timestamp = now\<rparr>]\<rparr>)
                   (save (uid user)
                      (\<lambda>u. u\<lparr>friends := friends u @ [cast friendId],
                         friendRequests := filter (\<lambda>i. i \<noteq> friendId) (friendRequests user)\<rparr>)
                    d))))"

definition post_reject ::
  "(string \<Rightarrow> bool) \<Rightarrow> (string \<Rightarrow> oid) \<Rightarrow> nat \<Rightarrow> string \<Rightarrow> string \<Rightarrow> db \<Rightarrow> reply \<times> db" where
  "post_reject isValid cast now userId friendId d =
    (if \<not> isValid userId \<or> \<not> isValid friendId then ((400, ''Invalid user IDs''), d)
     else case findById (cast userId) d of
       None \<Rightarrow> ((404, ''User not found''), d)
     | Some user \<Rightarrow>
        (case findById (cast friendId) d of
           None \<Rightarrow> ((404, ''User not found''), d)
         | Some friend \<Rightarrow>
            if friendId \<notin> set (friendRequests user)
            then ((400, ''No friend request from this user.''), d)
            else ((200, ''Friend request rejected.''),
                  save (uid friend)
                    (\<lambda>u. u\<lparr>notifications := notifications u @
                         [\<lparr>message = username user @ '' has rejected your friend request.'',
                           timestamp = now\<rparr>]\<rparr>)
                   (save (uid user)
                      (\<lambda>u. u\<lparr>friendRequests :=
                          filter (\<lambda>i. i \<noteq> friendId) (friendRequests user)\<rparr>)
                    d))))"

text \<open>
  In \<open>/unfriend\<close> both documents get their \<open>friends\<close> array reassigned. A reassigned array
  equal to the loaded one is not a modified path and is not sent: the stored array stays.
  One that differs is sent as the new value, under the version of the document that was
  loaded, and the save raises that version. So when \<open>userId\<close> and \<open>friendId\<close> denote the
  same document and both filters remove something, the second save finds the version
  raised by the first and throws: the handler answers 500 with the first save kept. (In
  \<open>/accept\<close> and \<open>/reject\<close> the filter always removes the entry \<open>includes\<close> has found, and
  the second save only pushes, which is not checked against the version.)
\<close>

definition reassigned :: "oid list \<Rightarrow> oid list \<Rightarrow> oid list \<Rightarrow> oid list" where
  "reassigned loaded new stored = (if new = loaded then stored else new)"

definition post_unfriend ::
  "(string \<Rightarrow> bool) \<Rightarrow> (string \<Rightarrow> oid) \<Rightarrow> nat \<Rightarrow> string \<Rightarrow> string \<Rightarrow> db \<Rightarrow> reply \<times> db" where
  "post_unfriend isValid cast now userId friendId d =
    (if \<not> isValid userId \<or> \<not> isValid friendId then ((400, ''Invalid user IDs''), d)
     else case findById (cast userId) d of
       None \<Rightarrow> ((404, ''User not found''), d)
     | Some user \<Rightarrow>
        (case findById (cast friendId) d of
           None \<Rightarrow> ((404, ''User not found''), d)
         | Some friend \<Rightarrow>
            if uid user = uid friend
               \<and> filter (\<lambda>i. i \<noteq> friendId) (friends user) \<noteq> friends user
               \<and> filter (\<lambda>i. i \<noteq> userId) (friends friend) \<noteq> friends friend
            then ((500, ''Server error, please try again.''),
                  save (uid user)
                    (\<lambda>u. u\<lparr>friends := filter (\<lambda>i. i \<noteq> friendId) (friends user)\<rparr>) d)
            else ((200, ''Unfriended successfully.''),
                  save (uid friend)
                    (\<lambda>u. u\<lparr>friends := reassigned (friends friend)
                                     (filter (\<lambda>i. i \<noteq> userId) (friends friend)) (friends u),
                       notifications := notifications u @
                         [\<lparr>message = username user @ '' has unfriended you.'',
                           timestamp = now\<rparr>]\<rparr>)
                   (save (uid user)
                      (\<lambda>u. u\<lparr>friends := reassigned (friends user)
                                       (filter (\<lambda>i. i \<noteq> friendId) (friends user)) (friends u)\<rparr>)
                    d))))"

text \<open>
  A call of the workflow is one of the four requests, with the clock reading at which it is
  served and the two id strings as sent; \<open>run\<close> serves a sequence of calls one after the
  other.
\<close>

datatype call =
    SendRequest nat string string
  | AcceptRequest nat string string
  | RejectRequest nat string string
  | Unfriend nat string string

fun serve :: "(string \<Rightarrow> bool) \<Rightarrow> (string \<Rightarrow> oid) \<Rightarrow> call \<Rightarrow> db \<Rightarrow> reply \<times> db" where
  "serve isValid cast (SendRequest t a b) d = post_request isValid cast t a b d"
| "serve isValid cast (AcceptRequest t a b) d = post_accept isValid cast t a b d"
| "serve isValid cast (RejectRequest t a b) d = post_reject isValid cast t a b d"
| "serve isValid cast (Unfriend t a b) d = post_unfriend isValid cast t a b d"

fun run :: "(string \<Rightarrow> bool) \<Rightarrow> (string \<Rightarrow> oid) \<Rightarrow> call list \<Rightarrow> db \<Rightarrow> db" where
  "run isValid cast [] d = d"
| "run isValid cast (c # cs) d = run isValid cast cs (snd (serve isValid cast c d))"

text \<open>What the store holds for an ObjectId: the friends and the pending requests.\<close>

definition friendsOf :: "db \<Rightarrow> oid \<Rightarrow> oid set" where
  "friendsOf d i = (case findById i d of None \<Rightarrow> {} | Some u \<Rightarrow> set (friends u))"

definition requestsOf :: "db \<Rightarrow> oid \<Rightarrow> oid set" where
  "requestsOf d i = (case findById i d of None \<Rightarrow> {} | Some u \<Rightarrow> set (friendRequests u))"

section \<open>Recommendations (GET /:userId/recommendations)\<close>

text \<open>
  \<open>populate\<close> replaces the ids of an array by the documents they refer to, in the order of
  the array; an id with no document is dropped.
\<close>

fun populate :: "oid list \<Rightarrow> db \<Rightarrow> user list" where
  "populate [] d = []"
| "populate (i # is) d =
     (case findById i d of None \<Rightarrow> populate is d | Some u \<Rightarrow> u # populate is d)"

text \<open>
  The \<open>recommendations\<close> object maps a candidate id to its data. Its keys are ObjectId
  strings, which \<open>Object.entries\<close> lists in insertion order, so the object is an
  association list: assigning a new key appends, updating a key keeps its place.
\<close>

record recdata =
  rec_username :: string
  commonInterests :: nat
  mutualFriends :: nat

record recommendation = recdata +
  rec_id :: oid

type_synonym recs = "(oid \<times> recdata) list"

text \<open>Step 1: the users the interest query returned.\<close>

fun interestPass :: "user \<Rightarrow> oid list \<Rightarrow> user list \<Rightarrow> recs \<Rightarrow> recs" where
  "interestPass user friendIds [] rs = rs"
| "interestPass user friendIds (potentialFriend # rest) rs =
     (if uid potentialFriend \<in> set friendIds \<or> map_of rs (uid potentialFriend) \<noteq> None
      then interestPass user friendIds rest rs
      else interestPass user friendIds rest
             (AList.update (uid potentialFriend)
                \<lparr>rec_username = username potentialFriend,
                 commonInterests =
                   length (filter (\<lambda>interest. interest \<in> set (interests potentialFriend))
                             (interests user)),
                 mutualFriends = 0\<rparr> rs))"

text \<open>
  Step 2, inner loop: the populated friends of one friend. \<open>userId\<close> is the string of the
  request path, compared with \<open>===\<close> as it was sent.
\<close>

fun mutualInner :: "string \<Rightarrow> oid list \<Rightarrow> user list \<Rightarrow> recs \<Rightarrow> recs" where
  "mutualInner userId friendIds [] rs = rs"
| "mutualInner userId friendIds (mutualFriend # rest) rs =
     (if uid mutualFriend = userId \<or> uid mutualFriend \<in> set friendIds
      then mutualInner userId friendIds rest rs
      else mutualInner userId friendIds rest
             (AList.map_entry (uid mutualFriend)
                (\<lambda>r. r\<lparr>mutualFriends := mutualFriends r + 1\<rparr>)
                (if map_of rs (uid mutualFriend) = None
                 then AList.update (uid mutualFriend)
                        \<lparr>rec_username = username mutualFriend,
                         commonInterests = 0, mutualFriends = 0\<rparr> rs
                 else rs)))"

text \<open>
  Step 2, outer loop. \<open>friendDetails\<close> is looked up again by id; were it missing, reading
  \<open>friendDetails.friends\<close> would throw and the handler would answer 500: the result
  \<open>None\<close>.
\<close>

fun mutualPass :: "string \<Rightarrow> oid list \<Rightarrow> db \<Rightarrow> user list \<Rightarrow> recs \<Rightarrow> recs option" where
  "mutualPass userId friendIds d [] rs = Some rs"
| "mutualPass userId friendIds d (friend # rest) rs =
     (case findById (uid friend) d of
        None \<Rightarrow> None
      | Some friendDetails \<Rightarrow>
          mutualPass userId friendIds d rest
            (mutualInner userId friendIds (populate (friends friendDetails) d) rs))"

text \<open>
  Step 3. The comparator of the sort, and \<open>Array.prototype.sort\<close> as a stable sort by
  it (insertion from the right keeps equal entries in their order).
\<close>

definition cmp :: "recommendation \<Rightarrow> recommendation \<Rightarrow> int" where
  "cmp a b =
     (if int (commonInterests b) - int (commonInterests a) \<noteq> 0
      then int (commonInterests b) - int (commonInterests a)
      else int (mutualFriends b) - int (mutualFriends a))"

fun insort_cmp :: "recommendation \<Rightarrow> recommendation list \<Rightarrow> recommendation list" where
  "insort_cmp x [] = [x]"
| "insort_cmp x (y # ys) = (if cmp x y \<le> 0 then x # y # ys else y # insort_cmp x ys)"

definition sort_cmp :: "recommendation list \<Rightarrow> recommendation list" where
  "sort_cmp xs = foldr insort_cmp xs []"

definition entry :: "oid \<times> recdata \<Rightarrow> recommendation" where
  "entry p = \<lparr>rec_username = rec_username (snd p), commonInterests = commonInterests (snd p),
              mutualFriends = mutualFriends (snd p), rec_id = fst p\<rparr>"

text \<open>
  The interest query excludes the user by \<open>_id: { $ne: userId }\<close>, where the store casts
  the string; \<open>oid\<close> is that ObjectId.
\<close>

definition commonInterestUsers :: "oid \<Rightarrow> user \<Rightarrow> db \<Rightarrow> user list" where
  "commonInterestUsers oid user d =
     filter (\<lambda>v. uid v \<noteq> oid \<and> (\<exists>i \<in> set (interests v). i \<in> set (interests user))) d"

definition get_recommendations ::
  "(string \<Rightarrow> bool) \<Rightarrow> (string \<Rightarrow> oid) \<Rightarrow> string \<Rightarrow> db \<Rightarrow> reply + recommendation list" where
  "get_recommendations isValid cast userId d =
    (if \<not> isValid userId then Inl (400, ''Invalid user ID'')
     else case findById (cast userId) d of
       None \<Rightarrow> Inl (404, ''User not found'')
     | Some user \<Rightarrow>
        (let userFriends = populate (friends user) d;
             friendIds = map uid userFriends
         in case mutualPass userId friendIds d userFriends
                   (interestPass user friendIds (commonInterestUsers (cast userId) user d) []) of
              None \<Rightarrow> Inl (500, ''Server error, please try again.'')
            | Some rs \<Rightarrow> Inr (sort_cmp (map entry rs))))"

section \<open>Example collections\<close>

text \<open>
  In the examples the driver is that of 24-digit hexadecimal ids: a string is valid when
  it consists of 24 hexadecimal digits, in either case, and its ObjectId prints in lower
  case. The collection holds three registered users with no relationships yet.
\<close>

definition hex24 :: "string \<Rightarrow> bool" where
  "hex24 s = (length s = 24 \<and> (\<forall>c \<in> set s. c \<in> set ''0123456789abcdefABCDEF''))"

definition lowerChar :: "char \<Rightarrow> char" where
  "lowerChar c =
     (if c = CHR ''A'' then CHR ''a'' else if c = CHR ''B'' then CHR ''b''
      else if c = CHR ''C'' then CHR ''c'' else if c = CHR ''D'' then CHR ''d''
      else if c = CHR ''E'' then CHR ''e'' else if c = CHR ''F'' then CHR ''f'' else c)"

definition lowerHex :: "string \<Rightarrow> oid" where
  "lowerHex s = map lowerChar s"

definition idA :: oid where "idA = ''64b000000000000000000a01''"
definition idB :: oid where "idB = ''64b000000000000000000b02''"
definition idC :: oid where "idC = ''64b000000000000000000c03''"

text \<open>The ids of alice and bob spelled with upper-case digits.\<close>

definition idA_upper :: string where "idA_upper = ''64B000000000000000000A01''"
definition idB_upper :: string where "idB_upper = ''64B000000000000000000B02''"

definition newUser :: "oid \<Rightarrow> string \<Rightarrow> string list \<Rightarrow> user" where
  "newUser i n ints = \<lparr>uid = i, username = n, password = ''$2a$10$hash'', friends = [],
     friendRequests = [], interests = ints, notifications = []\<rparr>"

definition db0 :: db where
  "db0 = [newUser idA ''alice'' [''x'', ''y''], newUser idB ''bob'' [''x''],
          newUser idC ''carol'' []]"

text \<open>
  Collections reached from \<open>db0\<close> through the workflow: alice has asked bob
  (\<open>pending\<close>); alice and bob have asked each other and bob has accepted (\<open>crossed\<close>);
  alice and bob, then bob and carol, have become friends (\<open>chain\<close>).
\<close>

definition pending :: db where
  "pending = run hex24 lowerHex [SendRequest 1 idA idB] db0"

definition crossed :: db where
  "crossed = run hex24 lowerHex
     [SendRequest 1 idA idB, SendRequest 2 idB idA, AcceptRequest 3 idB idA] db0"

definition chain :: db where
  "chain = run hex24 lowerHex
     [SendRequest 1 idA idB, AcceptRequest 2 idB idA,
      SendRequest 3 idB idC, AcceptRequest 4 idC idB] db0"

text \<open>
  Collections for the recommendations: two candidates with different numbers of common
  interests (\<open>dbRank\<close>); a user registered with a repeated interest (\<open>dbDup\<close>); a candidate
  with both common interests and a common friend (\<open>dbBoth\<close>).
\<close>

definition dbRank :: db where
  "dbRank = [newUser idA ''alice'' [''x'', ''y''], newUser idB ''bob'' [''x''],
             newUser idC ''carol'' [''y'', ''x'']]"

definition dbDup :: db where
  "dbDup = [newUser idA ''alice'' [''x'', ''x''], newUser idB ''bob'' [''x'']]"

definition dbBoth :: db where
  "dbBoth = [(newUser idA ''alice'' [''x'', ''y''])\<lparr>friends := [idB]\<rparr>,
             (newUser idB ''bob'' [''z''])\<lparr>friends := [idA, idC]\<rparr>,
             (newUser idC ''carol'' [''y'', ''x''])\<lparr>friends := [idB]\<rparr>]"

text \<open>
  The answer alice gets in \<open>chain\<close> when she asks for her recommendations with her id
  spelled in upper-case digits.
\<close>

definition selfView :: "reply + recommendation list" where
  "selfView = get_recommendations hex24 lowerHex idA_upper chain"

section \<open>Notions used in the statements\<close>

text \<open>
  \<open>ranked a b\<close>: entry \<open>a\<close> may stand before entry \<open>b\<close> in an output that is descending by
  \<open>commonInterests\<close> and, among equal \<open>commonInterests\<close>, descending by \<open>mutualFriends\<close>.
\<close>

definition ranked :: "recommendation \<Rightarrow> recommendation \<Rightarrow> bool" where
  "ranked a b = (commonInterests b < commonInterests a \<or>
                 (commonInterests a = commonInterests b \<and> mutualFriends b \<le> mutualFriends a))"

text \<open>The two counters of a candidate in the \<open>recommendations\<close> object, 0 when it has no entry.\<close>

definition ciOf :: "recs \<Rightarrow> oid \<Rightarrow> nat" where
  "ciOf rs c = (case map_of rs c of None \<Rightarrow> 0 | Some r \<Rightarrow> commonInterests r)"

definition mfOf :: "recs \<Rightarrow> oid \<Rightarrow> nat" where
  "mfOf rs c = (case map_of rs c of None \<Rightarrow> 0 | Some r \<Rightarrow> mutualFriends r)"

section \<open>Auxiliary facts\<close>

lemma findById_Some_uid: "findById i d = Some u \<Longrightarrow> uid u = i"
  unfolding findById_def by (induction d) (auto split: if_splits)

lemma findById_save:
  assumes "\<And>u. uid (f u) = uid u"
  shows "findById i (save j f d) = (if i = j then map_option f (findById i d) else findById i d)"
  unfolding findById_def save_def using assms by (induction d) auto

lemma save_notifications:
  assumes "\<And>u. uid (f u) = uid u" "\<And>u. prefix (notifications u) (notifications (f u))"
    and "findById i d = Some u"
  shows "\<exists>u'. findById i (save j f d) = Some u' \<and> prefix (notifications u) (notifications u')"
  using assms by (auto simp: findById_save)

lemma save2_notifications:
  assumes "\<And>u. uid (f u) = uid u" "\<And>u. prefix (notifications u) (notifications (f u))"
     "\<And>u. uid (g u) = uid u" "\<And>u. prefix (notifications u) (notifications (g u))"
    and "findById i d = Some u"
  shows "\<exists>u'. findById i (save j f (save k g d)) = Some u' \<and> prefix (notifications u) (notifications u')"
proof -
  obtain u1 where 1: "findById i (save k g d) = Some u1" "prefix (notifications u) (notifications u1)"
    using save_notifications[OF assms(3,4,5)] by blast
  obtain u2 where 2: "findById i (save j f (save k g d)) = Some u2" "prefix (notifications u1) (notifications u2)"
    using save_notifications[OF assms(1,2) 1(1)] by blast
  show ?thesis using 1 2 by (auto intro: prefix_order.trans)
qed

lemma cmp_ranked: "cmp x y \<le> 0 \<longleftrightarrow> ranked x y"
  unfolding cmp_def ranked_def by auto

lemma ranked_total: "\<not> ranked x y \<Longrightarrow> ranked y x"
  unfolding ranked_def by auto

lemma ranked_trans: "ranked x y \<Longrightarrow> ranked y z \<Longrightarrow> ranked x z"
  unfolding ranked_def by auto

lemma set_insort_cmp: "set (insort_cmp x ys) = insert x (set ys)"
  by (induction ys) auto

lemma set_sort_cmp: "set (sort_cmp xs) = set xs"
  unfolding sort_cmp_def by (induction xs) (auto simp: set_insort_cmp)

lemma sorted_insort_cmp: "sorted_wrt ranked ys \<Longrightarrow> sorted_wrt ranked (insort_cmp x ys)"
proof (induction ys)
  case Nil
  then show ?case by simp
next
  case (Cons y ys)
  show ?case
  proof (cases "cmp x y \<le> 0")
    case True
    then have "ranked x y" by (simp add: cmp_ranked)
    moreover have "\<forall>z \<in> set ys. ranked y z" using Cons.prems by simp
    ultimately have "\<forall>z \<in> set ys. ranked x z" by (blast intro: ranked_trans)
    with True \<open>ranked x y\<close> Cons.prems show ?thesis by simp
  next
    case False
    then have "ranked y x" by (simp add: cmp_ranked ranked_total)
    with False Cons show ?thesis by (auto simp: set_insort_cmp)
  qed
qed

lemma sorted_sort_cmp: "sorted_wrt ranked (sort_cmp xs)"
  unfolding sort_cmp_def by (induction xs) (auto intro: sorted_insort_cmp)

lemma map_insort_cmp_distinct:
  "distinct (map f (insort_cmp x ys)) \<longleftrightarrow> f x \<notin> f ` set ys \<and> distinct (map f ys)"
  by (induction ys) (auto simp: set_insort_cmp)

lemma distinct_map_sort_cmp: "distinct (map f (sort_cmp xs)) \<longleftrightarrow> distinct (map f xs)"
  unfolding sort_cmp_def
  by (induction xs) (auto simp: map_insort_cmp_distinct set_sort_cmp[unfolded sort_cmp_def])

lemma findById_mem: "u \<in> set d \<Longrightarrow> findById (uid u) d \<noteq> None"
  unfolding findById_def by (auto simp: find_None_iff)

lemma populate_found: "f \<in> set (populate is d) \<Longrightarrow> findById (uid f) d = Some f"
  by (induction "is") (auto split: option.splits dest: findById_Some_uid)

lemma map_uid_populate: "map uid (populate is d) = filter (\<lambda>i. findById i d \<noteq> None) is"
  by (induction "is") (auto split: option.splits dest: findById_Some_uid)

lemma keys_interestPass:
  "fst ` set (interestPass user fids pfs rs) \<subseteq>
     fst ` set rs \<union> {c. c \<notin> set fids \<and> c \<in> uid ` set pfs}"
proof (induction pfs arbitrary: rs)
  case Nil
  then show ?case by simp
next
  case (Cons pf pfs)
  show ?case using Cons.IH[of rs]
      Cons.IH[of "AList.update (uid pf) \<lparr>rec_username = username pf,
                 commonInterests = length (filter (\<lambda>interest. interest \<in> set (interests pf)) (interests user)),
                 mutualFriends = 0\<rparr> rs"]
    by (auto simp: dom_update simp del: AList.update.simps)
qed

lemma map_of_Some_key: "map_of rs k = Some y \<Longrightarrow> k \<in> fst ` set rs"
  by (force dest: map_of_SomeD)

lemma keys_mutualInner:
  "fst ` set (mutualInner userId fids ms rs) =
     fst ` set rs \<union> {c. c \<noteq> userId \<and> c \<notin> set fids \<and> c \<in> uid ` set ms}"
proof (induction ms arbitrary: rs)
  case Nil
  then show ?case by simp
next
  case (Cons m ms)
  show ?case
    by (auto simp: Cons.IH dom_update dom_map_entry dest: map_of_Some_key
          simp del: AList.update.simps AList.map_entry.simps)
qed

lemma keys_mutualPass:
  "mutualPass userId fids d fs rs = Some rs' \<Longrightarrow>
   fst ` set rs' \<subseteq> fst ` set rs \<union> {c. c \<noteq> userId \<and> c \<notin> set fids \<and> findById c d \<noteq> None}"
proof (induction fs arbitrary: rs)
  case Nil
  then show ?case by simp
next
  case (Cons f fs)
  from Cons.prems obtain fd where fd: "findById (uid f) d = Some fd"
    and rest: "mutualPass userId fids d fs (mutualInner userId fids (populate (friends fd) d) rs) = Some rs'"
    by (auto split: option.splits)
  have "uid ` set (populate (friends fd) d) \<subseteq> {c. findById c d \<noteq> None}"
    by (auto dest: populate_found)
  with Cons.IH[OF rest] show ?case
    by (auto simp: keys_mutualInner)
qed

lemma distinct_interestPass:
  "distinct (map fst rs) \<Longrightarrow> distinct (map fst (interestPass user fids pfs rs))"
  by (induction pfs arbitrary: rs) (auto simp: distinct_update simp del: AList.update.simps)

lemma distinct_mutualInner:
  "distinct (map fst rs) \<Longrightarrow> distinct (map fst (mutualInner userId fids ms rs))"
  by (induction ms arbitrary: rs)
     (auto simp: distinct_update distinct_map_entry simp del: AList.update.simps AList.map_entry.simps)

lemma distinct_mutualPass:
  "mutualPass userId fids d fs rs = Some rs' \<Longrightarrow> distinct (map fst rs) \<Longrightarrow> distinct (map fst rs')"
  by (induction fs arbitrary: rs) (auto split: option.splits intro: distinct_mutualInner)

lemma mutualPass_total:
  "\<forall>f \<in> set fs. findById (uid f) d \<noteq> None \<Longrightarrow> mutualPass userId fids d fs rs \<noteq> None"
  by (induction fs arbitrary: rs) (auto split: option.splits)

lemma rec_id_entry: "map rec_id (map entry rs) = map fst rs"
  by (induction rs) (auto simp: entry_def)

lemma rec_id_key: "r \<in> set (map entry rs) \<Longrightarrow> rec_id r \<in> fst ` set rs"
  by (force simp: entry_def)

lemma map_of_interestPass:
  "map_of (interestPass user fids pfs rs) c =
   (case map_of rs c of Some r \<Rightarrow> Some r
    | None \<Rightarrow> (case find (\<lambda>pf. uid pf = c) pfs of None \<Rightarrow> None
        | Some pf \<Rightarrow> if c \<in> set fids then None
            else Some \<lparr>rec_username = username pf,
                       commonInterests = length (filter (\<lambda>i. i \<in> set (interests pf)) (interests user)),
                       mutualFriends = 0\<rparr>))"
proof (induction pfs arbitrary: rs)
  case Nil
  then show ?case by (simp split: option.splits)
next
  case (Cons pf pfs)
  show ?case
    by (auto simp: Cons.IH update_conv' split: option.splits simp del: AList.update.simps)
qed

lemma find_filter_distinct:
  "distinct (map uid d) \<Longrightarrow>
   find (\<lambda>v. uid v = c) (filter Q d) =
     (case findById c d of None \<Rightarrow> None | Some v \<Rightarrow> if Q v then Some v else None)"
proof (induction d)
  case Nil
  then show ?case by (simp add: findById_def)
next
  case (Cons x d)
  show ?case
  proof (cases "uid x = c")
    case True
    then have "c \<notin> uid ` set d" using Cons.prems by auto
    then have "find (\<lambda>v. uid v = c) (filter Q d) = None"
      by (auto simp: find_None_iff)
    with True show ?thesis by (simp add: findById_def)
  next
    case False
    with Cons show ?thesis by (simp add: findById_def)
  qed
qed

lemma ciOf_map_entry:
  "ciOf (AList.map_entry k (\<lambda>r. r\<lparr>mutualFriends := Suc (mutualFriends r)\<rparr>) rs) c = ciOf rs c"
  by (simp add: ciOf_def map_of_map_entry split: option.splits)

lemma ciOf_update_fresh:
  "map_of rs k = None \<Longrightarrow>
   ciOf (AList.update k \<lparr>rec_username = n, commonInterests = 0, mutualFriends = 0\<rparr> rs) c = ciOf rs c"
  by (simp add: ciOf_def update_conv')

lemma mfOf_map_entry:
  "mfOf (AList.map_entry k (\<lambda>r. r\<lparr>mutualFriends := Suc (mutualFriends r)\<rparr>) rs) c =
     (if c = k \<and> map_of rs k \<noteq> None then mfOf rs c + 1 else mfOf rs c)"
  by (auto simp: mfOf_def map_of_map_entry split: option.splits)

lemma mfOf_update_fresh:
  "map_of rs k = None \<Longrightarrow>
   mfOf (AList.update k \<lparr>rec_username = n, commonInterests = 0, mutualFriends = 0\<rparr> rs) c = mfOf rs c"
  by (simp add: mfOf_def update_conv')

lemma ciOf_mutualInner: "ciOf (mutualInner userId fids ms rs) c = ciOf rs c"
proof (induction ms arbitrary: rs)
  case Nil
  then show ?case by simp
next
  case (Cons m ms)
  show ?case
    by (auto simp: Cons.IH ciOf_map_entry ciOf_update_fresh
          simp del: AList.update.simps AList.map_entry.simps)
qed

lemma mfOf_mutualInner:
  "mfOf (mutualInner userId fids ms rs) c =
     mfOf rs c + (if c = userId \<or> c \<in> set fids then 0 else count_list (map uid ms) c)"
proof (induction ms arbitrary: rs)
  case Nil
  then show ?case by simp
next
  case (Cons m ms)
  show ?case
  proof (cases "uid m = userId \<or> uid m \<in> set fids")
    case True
    then have "mutualInner userId fids (m # ms) rs = mutualInner userId fids ms rs"
      by auto
    moreover have "(if c = userId \<or> c \<in> set fids then 0 else count_list (map uid (m # ms)) c) =
          (if c = userId \<or> c \<in> set fids then 0 else count_list (map uid ms) c)"
      using True by auto
    ultimately show ?thesis using Cons.IH[of rs] by simp
  next
    case False
    define rs1 where "rs1 = (if map_of rs (uid m) = None
       then AList.update (uid m) \<lparr>rec_username = username m, commonInterests = 0, mutualFriends = 0\<rparr> rs
       else rs)"
    define rs2 where "rs2 = AList.map_entry (uid m) (\<lambda>r. r\<lparr>mutualFriends := Suc (mutualFriends r)\<rparr>) rs1"
    have present: "map_of rs1 (uid m) \<noteq> None"
      by (simp add: rs1_def update_conv')
    have "mfOf rs1 c = mfOf rs c"
      by (simp add: rs1_def mfOf_update_fresh)
    with present have step: "mfOf rs2 c = (if c = uid m then mfOf rs c + 1 else mfOf rs c)"
      by (auto simp: rs2_def mfOf_map_entry)
    have "mutualInner userId fids (m # ms) rs = mutualInner userId fids ms rs2"
      using False by (simp add: rs1_def rs2_def del: AList.update.simps AList.map_entry.simps)
    then have "mfOf (mutualInner userId fids (m # ms) rs) c =
        mfOf rs2 c + (if c = userId \<or> c \<in> set fids then 0 else count_list (map uid ms) c)"
      using Cons.IH[of rs2] by simp
    with step False show ?thesis by auto
  qed
qed

lemma ciOf_mutualPass:
  "mutualPass userId fids d fs rs = Some rs' \<Longrightarrow> ciOf rs' c = ciOf rs c"
  by (induction fs arbitrary: rs) (auto simp: ciOf_mutualInner split: option.splits)

lemma count_list_filter: "count_list (filter P xs) c = (if P c then count_list xs c else 0)"
  by (induction xs) auto

lemma count_populate:
  "count_list (map uid (populate fs d)) c = (if findById c d = None then 0 else count_list fs c)"
  by (simp add: map_uid_populate count_list_filter)

lemma mfOf_mutualPass:
  "mutualPass userId fids d fs rs = Some rs' \<Longrightarrow> \<forall>f \<in> set fs. findById (uid f) d = Some f \<Longrightarrow>
   mfOf rs' c = mfOf rs c +
     (if c = userId \<or> c \<in> set fids then 0
      else sum_list (map (\<lambda>f. count_list (map uid (populate (friends f) d)) c) fs))"
proof (induction fs arbitrary: rs)
  case Nil
  then show ?case by simp
next
  case (Cons f fs)
  from Cons.prems have fd: "findById (uid f) d = Some f" by simp
  with Cons.prems have rest:
    "mutualPass userId fids d fs (mutualInner userId fids (populate (friends f) d) rs) = Some rs'"
    by simp
  from Cons.prems have all: "\<forall>f \<in> set fs. findById (uid f) d = Some f" by simp
  show ?case
    by (simp add: Cons.IH[OF rest all] mfOf_mutualInner)
qed

lemma distinct_filter_once:
  "distinct (map f xs) \<Longrightarrow> x \<in> set xs \<Longrightarrow> length (filter (\<lambda>y. f y = f x) xs) = 1"
proof (induction xs)
  case Nil
  then show ?case by simp
next
  case (Cons y ys)
  show ?case
  proof (cases "f y = f x")
    case True
    moreover from Cons.prems(1) have "f y \<notin> f ` set ys" by simp
    ultimately have "\<forall>z \<in> set ys. f z \<noteq> f x" by (metis image_eqI)
    then have "filter (\<lambda>y. f y = f x) ys = []" by (simp add: filter_empty_conv)
    with True show ?thesis by simp
  next
    case False
    with Cons show ?thesis by auto
  qed
qed

lemma count_list_distinct: "distinct xs \<Longrightarrow> count_list xs c = (if c \<in> set xs then 1 else 0)"
  by (induction xs) auto

lemma sum_list_indicator: "sum_list (map (\<lambda>x. if Q x then 1 else 0) xs) = length (filter Q xs)"
  by (induction xs) auto

lemma sum_populate:
  "sum_list (map g (populate ids d)) =
   sum_list (map (\<lambda>i. case findById i d of None \<Rightarrow> (0::nat) | Some f \<Rightarrow> g f) ids)"
  by (induction ids) (auto split: option.splits)

lemma populate_mem: "i \<in> set ids \<Longrightarrow> findById i d = Some f \<Longrightarrow> f \<in> set (populate ids d)"
  by (induction ids) (auto split: option.splits)

lemma paths_card:
  assumes "distinct ids" and "\<forall>f \<in> set (populate ids d). distinct (friends f)"
  shows "sum_list (map (\<lambda>f. count_list (friends f) c) (populate ids d)) =
         card {i \<in> set ids. c \<in> friendsOf d i}"
proof -
  have "\<And>i. i \<in> set ids \<Longrightarrow>
      (case findById i d of None \<Rightarrow> 0 | Some f \<Rightarrow> count_list (friends f) c) =
      (if c \<in> friendsOf d i then 1 else (0::nat))"
    using assms(2) by (auto simp: friendsOf_def count_list_distinct dest: populate_mem split: option.splits)
  then have eq: "map (\<lambda>i. case findById i d of None \<Rightarrow> 0 | Some f \<Rightarrow> count_list (friends f) c) ids =
      map (\<lambda>i. if c \<in> friendsOf d i then 1 else (0::nat)) ids"
    by simp
  have "sum_list (map (\<lambda>f. count_list (friends f) c) (populate ids d)) =
      sum_list (map (\<lambda>i. case findById i d of None \<Rightarrow> 0 | Some f \<Rightarrow> count_list (friends f) c) ids)"
    by (rule sum_populate)
  also have "\<dots> = sum_list (map (\<lambda>i. if c \<in> friendsOf d i then 1 else (0::nat)) ids)"
    by (simp only: eq)
  also have "\<dots> = length (filter (\<lambda>i. c \<in> friendsOf d i) ids)"
    by (rule sum_list_indicator)
  also have "\<dots> = card ({i. c \<in> friendsOf d i} \<inter> set ids)"
    using assms(1) by (rule distinct_length_filter)
  also have "{i. c \<in> friendsOf d i} \<inter> set ids = {i \<in> set ids. c \<in> friendsOf d i}"
    by blast
  finally show ?thesis .
qed

lemma get_recommendations_unfold:
  assumes "get_recommendations isValid cast userId d = Inr out"
  obtains user rs where "isValid userId" "findById (cast userId) d = Some user"
    "mutualPass userId (map uid (populate (friends user) d)) d (populate (friends user) d)
       (interestPass user (map uid (populate (friends user) d))
          (commonInterestUsers (cast userId) user d) []) = Some rs"
    "out = sort_cmp (map entry rs)"
  using assms unfolding get_recommendations_def
  by (auto simp: Let_def split: if_splits option.splits)

lemma keys_recommendations:
  assumes "mutualPass userId (map uid (populate (friends user) d)) d (populate (friends user) d)
       (interestPass user (map uid (populate (friends user) d)) (commonInterestUsers userId user d) []) = Some rs"
    and "c \<in> fst ` set rs"
  shows "c \<noteq> userId \<and> c \<notin> set (map uid (populate (friends user) d)) \<and> findById c d \<noteq> None"
proof -
  let ?fids = "map uid (populate (friends user) d)"
  have "uid ` set (commonInterestUsers userId user d) \<subseteq> {c. c \<noteq> userId \<and> findById c d \<noteq> None}"
    unfolding commonInterestUsers_def by (auto dest: findById_mem)
  moreover have "fst ` set (interestPass user ?fids (commonInterestUsers userId user d) [])
          \<subseteq> {c. c \<notin> set ?fids \<and> c \<in> uid ` set (commonInterestUsers userId user d)}"
    using keys_interestPass[of user ?fids "commonInterestUsers userId user d" "[]"] by simp
  ultimately have "fst ` set (interestPass user ?fids (commonInterestUsers userId user d) [])
          \<subseteq> {c. c \<noteq> userId \<and> c \<notin> set ?fids \<and> findById c d \<noteq> None}"
    by blast
  moreover have "fst ` set rs \<subseteq>
      fst ` set (interestPass user ?fids (commonInterestUsers userId user d) []) \<union>
      {c. c \<noteq> userId \<and> c \<notin> set ?fids \<and> findById c d \<noteq> None}"
    using assms(1) by (intro keys_mutualPass) simp
  ultimately show ?thesis using assms(2) by blast
qed

lemma interest_entry:
  assumes "distinct (map uid d)" and "findById c d = Some cu" and "c \<noteq> userId" and "c \<notin> set fids"
  shows "ciOf (interestPass user fids (commonInterestUsers userId user d) []) c =
           length (filter (\<lambda>i. i \<in> set (interests cu)) (interests user)) \<and>
         mfOf (interestPass user fids (commonInterestUsers userId user d) []) c = 0"
proof -
  have u: "uid cu = c" using assms(2) by (rule findById_Some_uid)
  show ?thesis
  proof (cases "\<exists>i \<in> set (interests cu). i \<in> set (interests user)")
    case True
    with assms u show ?thesis
      by (simp add: ciOf_def mfOf_def map_of_interestPass commonInterestUsers_def
            find_filter_distinct)
  next
    case False
    then have "filter (\<lambda>i. i \<in> set (interests cu)) (interests user) = []"
      by (auto simp: filter_empty_conv)
    with False assms u show ?thesis
      by (simp add: ciOf_def mfOf_def map_of_interestPass commonInterestUsers_def
            find_filter_distinct)
  qed
qed

lemma hex24_ids: "hex24 idA" "hex24 idB" "hex24 idC" "hex24 idA_upper" "hex24 idB_upper"
  by (simp_all add: hex24_def idA_def idB_def idC_def idA_upper_def idB_upper_def)

lemma lowerHex_ids:
  "lowerHex idA = idA" "lowerHex idB = idB" "lowerHex idC = idC"
  "lowerHex idA_upper = idA" "lowerHex idB_upper = idB"
  by (simp_all add: lowerHex_def lowerChar_def idA_def idB_def idC_def idA_upper_def idB_upper_def)

lemma ids_distinct:
  "idA \<noteq> idB" "idB \<noteq> idA" "idA \<noteq> idC" "idC \<noteq> idA" "idB \<noteq> idC" "idC \<noteq> idB"
  by (simp_all add: idA_def idB_def idC_def)

lemma upper_distinct:
  "idA_upper \<noteq> idA" "idA \<noteq> idA_upper" "idA_upper \<noteq> idB" "idB \<noteq> idA_upper"
  "idA_upper \<noteq> idC" "idC \<noteq> idA_upper"
  "idB_upper \<noteq> idA" "idA \<noteq> idB_upper" "idB_upper \<noteq> idB" "idB \<noteq> idB_upper"
  "idB_upper \<noteq> idC" "idC \<noteq> idB_upper"
  by (simp_all add: idA_def idB_def idC_def idA_upper_def idB_upper_def)

lemma db0_find:
  "findById idA db0 = Some (newUser idA ''alice'' [''x'', ''y''])"
  "findById idB db0 = Some (newUser idB ''bob'' [''x''])"
  "findById idC db0 = Some (newUser idC ''carol'' [])"
  by (simp_all add: findById_def db0_def newUser_def ids_distinct)

lemma friendsOf_db0: "friendsOf db0 i = {}"
  by (simp add: friendsOf_def findById_def db0_def newUser_def)

lemmas eval_defs = post_request_def post_accept_def post_reject_def post_unfriend_def
  reassigned_def findById_def save_def db0_def newUser_def hex24_ids lowerHex_ids ids_distinct
  upper_distinct

lemma pending_eq:
  "pending =
    [newUser idA ''alice'' [''x'', ''y''],
     (newUser idB ''bob'' [''x''])\<lparr>friendRequests := [idA],
        notifications := [\<lparr>message = ''alice has sent you a friend request.'', timestamp = 1\<rparr>]\<rparr>,
     newUser idC ''carol'' []]"
  by (simp add: pending_def eval_defs)

lemma crossed_eq:
  "crossed =
    [(newUser idA ''alice'' [''x'', ''y''])\<lparr>friends := [idB], friendRequests := [idB],
        notifications := [\<lparr>message = ''bob has sent you a friend request.'', timestamp = 2\<rparr>,
                          \<lparr>message = ''bob has accepted your friend request.'', timestamp = 3\<rparr>]\<rparr>,
     (newUser idB ''bob'' [''x''])\<lparr>friends := [idA],
        notifications := [\<lparr>message = ''alice has sent you a friend request.'', timestamp = 1\<rparr>]\<rparr>,
     newUser idC ''carol'' []]"
  by (simp add: crossed_def eval_defs)

lemma chain_eq:
  "chain =
    [(newUser idA ''alice'' [''x'', ''y''])\<lparr>friends := [idB],
        notifications := [\<lparr>message = ''bob has accepted your friend request.'', timestamp = 2\<rparr>]\<rparr>,
     (newUser idB ''bob'' [''x''])\<lparr>friends := [idA, idC],
        notifications := [\<lparr>message = ''alice has sent you a friend request.'', timestamp = 1\<rparr>,
                          \<lparr>message = ''carol has accepted your friend request.'', timestamp = 4\<rparr>]\<rparr>,
     (newUser idC ''carol'' [])\<lparr>friends := [idB],
        notifications := [\<lparr>message = ''bob has sent you a friend request.'', timestamp = 3\<rparr>]\<rparr>]"
  by (simp add: chain_def eval_defs)

lemmas rec_defs = get_recommendations_def commonInterestUsers_def entry_def sort_cmp_def cmp_def
  findById_def newUser_def hex24_ids lowerHex_ids ids_distinct upper_distinct

lemma dbRank_recommendations:
  "get_recommendations hex24 lowerHex idA dbRank =
     Inr [\<lparr>rec_username = ''carol'', commonInterests = 2, mutualFriends = 0, rec_id = idC\<rparr>,
          \<lparr>rec_username = ''bob'', commonInterests = 1, mutualFriends = 0, rec_id = idB\<rparr>]"
  by (simp add: dbRank_def rec_defs)

lemma dbDup_recommendations:
  "get_recommendations hex24 lowerHex idA dbDup =
     Inr [\<lparr>rec_username = ''bob'', commonInterests = 2, mutualFriends = 0, rec_id = idB\<rparr>]"
  by (simp add: dbDup_def rec_defs)

lemma pending_find:
  "findById idA pending = Some (newUser idA ''alice'' [''x'', ''y''])"
  "findById idB pending = Some ((newUser idB ''bob'' [''x''])\<lparr>friendRequests := [idA],
        notifications := [\<lparr>message = ''alice has sent you a friend request.'', timestamp = 1\<rparr>]\<rparr>)"
  by (simp_all add: pending_eq findById_def newUser_def ids_distinct)

lemma dbBoth_find:
  "findById idA dbBoth = Some ((newUser idA ''alice'' [''x'', ''y''])\<lparr>friends := [idB]\<rparr>)"
  "findById idB dbBoth = Some ((newUser idB ''bob'' [''z''])\<lparr>friends := [idA, idC]\<rparr>)"
  "findById idC dbBoth = Some ((newUser idC ''carol'' [''y'', ''x''])\<lparr>friends := [idB]\<rparr>)"
  by (simp_all add: findById_def dbBoth_def newUser_def ids_distinct)

lemma friendsOf_dbBoth:
  "friendsOf dbBoth i =
     (if i = idA then {idB} else if i = idB then {idA, idC} else if i = idC then {idB} else {})"
  by (simp add: friendsOf_def findById_def dbBoth_def newUser_def ids_distinct)

lemma dbBoth_symmetric: "\<forall>x y. x \<in> friendsOf dbBoth y \<longleftrightarrow> y \<in> friendsOf dbBoth x"
  by (auto simp: friendsOf_dbBoth ids_distinct split: if_splits)

lemma dbBoth_recommendations:
  "get_recommendations hex24 lowerHex idA dbBoth =
     Inr [\<lparr>rec_username = ''carol'', commonInterests = 2, mutualFriends = 1, rec_id = idC\<rparr>]"
  by (simp add: dbBoth_def rec_defs)

section \<open>Symmetry of the friends relation\<close>

text \<open>
  Claim C1. The claim asks that the friends relation stays symmetric under any sequence of
  calls served from a symmetric state. In \<open>chain\<close>, reached from fresh users, alice and bob
  are friends of each other. alice unfriends bob with his id spelled in upper-case digits.
  Both lookups cast the string and find the two users, but the two filters compare the
  stored ids with the strings as sent: nothing leaves the friends of alice, and alice leaves
  the friends of bob. The handler answers 200, and afterwards bob is a friend of alice while
  alice is no friend of bob.
\<close>

theorem unfriend_breaks_symmetry:
  "idB \<in> friendsOf chain idA \<and> idA \<in> friendsOf chain idB \<and>
   fst (serve hex24 lowerHex (Unfriend 5 idA idB_upper) chain) = (200, ''Unfriended successfully.'') \<and>
   idB \<in> friendsOf (snd (serve hex24 lowerHex (Unfriend 5 idA idB_upper) chain)) idA \<and>
   idA \<notin> friendsOf (snd (serve hex24 lowerHex (Unfriend 5 idA idB_upper) chain)) idB"
proof -
  have "idB \<in> friendsOf chain idA \<and> idA \<in> friendsOf chain idB"
    by (simp add: chain_eq friendsOf_def findById_def newUser_def ids_distinct)
  moreover have "serve hex24 lowerHex (Unfriend 5 idA idB_upper) chain =
    ((200, ''Unfriended successfully.''),
     [(newUser idA ''alice'' [''x'', ''y''])\<lparr>friends := [idB],
        notifications := [\<lparr>message = ''bob has accepted your friend request.'', timestamp = 2\<rparr>]\<rparr>,
      (newUser idB ''bob'' [''x''])\<lparr>friends := [idC],
        notifications := [\<lparr>message = ''alice has sent you a friend request.'', timestamp = 1\<rparr>,
                          \<lparr>message = ''carol has accepted your friend request.'', timestamp = 4\<rparr>,
                          \<lparr>message = ''alice has unfriended you.'', timestamp = 5\<rparr>]\<rparr>,
      (newUser idC ''carol'' [])\<lparr>friends := [idB],
        notifications := [\<lparr>message = ''bob has sent you a friend request.'', timestamp = 3\<rparr>]\<rparr>])"
    by (simp add: chain_eq eval_defs)
  ultimately show ?thesis
    by (simp add: friendsOf_def findById_def newUser_def ids_distinct)
qed

section \<open>Friends with a request still pending\<close>

text \<open>
  Claim C2. The claim asks that two users are never friends while a request between them,
  in either direction, is pending. From three fresh users, alice asks bob, bob asks alice
  (the duplicate guard of \<open>/request\<close> looks only at the queue of the target), and bob
  accepts: \<open>/accept\<close> filters the queue of bob alone, so alice and bob are friends and the
  request of bob is still in the queue of alice.
\<close>

theorem accept_leaves_reverse_request:
  "idA \<in> friendsOf crossed idB \<and> idB \<in> friendsOf crossed idA \<and> idB \<in> requestsOf crossed idA"
  by (simp add: crossed_eq friendsOf_def requestsOf_def findById_def newUser_def ids_distinct)

section \<open>Unfriend outside the FRIENDS state\<close>

text \<open>
  Claim C3 as stated asks that unfriend fails with NotFriends and changes nothing when the
  two users are not friends. In \<open>db0\<close> alice and carol are not friends, yet the handler
  answers 200 and the collection changes (carol gets a notification).
\<close>

theorem unfriend_not_friends_counterexample:
  "idC \<notin> friendsOf db0 idA \<and> idA \<notin> friendsOf db0 idC \<and>
   fst (post_unfriend hex24 lowerHex 4 idA idC db0) = (200, ''Unfriended successfully.'') \<and>
   snd (post_unfriend hex24 lowerHex 4 idA idC db0) \<noteq> db0"
proof -
  have "idC \<notin> friendsOf db0 idA \<and> idA \<notin> friendsOf db0 idC"
    by (simp add: friendsOf_db0)
  moreover have "fst (post_unfriend hex24 lowerHex 4 idA idC db0) = (200, ''Unfriended successfully.'')"
    by (simp add: eval_defs)
  moreover have "snd (post_unfriend hex24 lowerHex 4 idA idC db0) \<noteq> db0"
    by (simp add: eval_defs)
  ultimately show ?thesis by simp
qed

text \<open>
  Claim C3, amended. For existing distinct users \<open>A\<close> and \<open>B\<close>, addressed by their ids in
  the form \<open>toString()\<close> gives (\<open>cast A = A\<close>, \<open>cast B = B\<close>), in any state, unfriend
  succeeds: \<open>B\<close> is filtered out of the friends of \<open>A\<close> and \<open>A\<close> out of the friends of \<open>B\<close>
  (which leaves the lists as they were when the two were not friends), \<open>B\<close> gets the
  notification that \<open>A\<close> has unfriended them, and no other user changes. The handler has no
  NotFriends answer. What it does with an id in another spelling is the matter of C1 and is
  not part of this statement.
\<close>

theorem post_unfriend_unconditional:
  assumes "isValid A" "isValid B" "A \<noteq> B" "cast A = A" "cast B = B"
    and "findById A d = Some a" "findById B d = Some b"
  shows "fst (post_unfriend isValid cast now A B d) = (200, ''Unfriended successfully.'') \<and>
         findById A (snd (post_unfriend isValid cast now A B d)) =
           Some (a\<lparr>friends := filter (\<lambda>i. i \<noteq> B) (friends a)\<rparr>) \<and>
         findById B (snd (post_unfriend isValid cast now A B d)) =
           Some (b\<lparr>friends := filter (\<lambda>i. i \<noteq> A) (friends b),
                   notifications := notifications b @
                     [\<lparr>message = username a @ '' has unfriended you.'', timestamp = now\<rparr>]\<rparr>) \<and>
         (\<forall>i. i \<noteq> A \<and> i \<noteq> B \<longrightarrow>
            findById i (snd (post_unfriend isValid cast now A B d)) = findById i d)"
proof -
  have u: "uid a = A" "uid b = B"
    using assms(6,7) by (auto dest: findById_Some_uid)
  show ?thesis
    using assms u unfolding post_unfriend_def
    by (simp add: findById_save reassigned_def)
qed

text \<open>
  The amended C3 for alice and carol in \<open>db0\<close>.
\<close>

theorem post_unfriend_unconditional_witness:
  "fst (post_unfriend hex24 lowerHex 4 idA idC db0) = (200, ''Unfriended successfully.'') \<and>
   findById idA (snd (post_unfriend hex24 lowerHex 4 idA idC db0)) =
     Some ((newUser idA ''alice'' [''x'', ''y''])\<lparr>friends :=
        filter (\<lambda>i. i \<noteq> idC) (friends (newUser idA ''alice'' [''x'', ''y'']))\<rparr>) \<and>
   findById idC (snd (post_unfriend hex24 lowerHex 4 idA idC db0)) =
     Some ((newUser idC ''carol'' [])\<lparr>friends := filter (\<lambda>i. i \<noteq> idA) (friends (newUser idC ''carol'' [])),
        notifications := notifications (newUser idC ''carol'' []) @
          [\<lparr>message = username (newUser idA ''alice'' [''x'', ''y'']) @ '' has unfriended you.'',
            timestamp = 4\<rparr>]\<rparr>) \<and>
   findById idB (snd (post_unfriend hex24 lowerHex 4 idA idC db0)) = findById idB db0"
  using post_unfriend_unconditional[OF hex24_ids(1) hex24_ids(3) ids_distinct(3)
      lowerHex_ids(1) lowerHex_ids(3) db0_find(1) db0_find(3), of 4]
  by (simp add: ids_distinct)

section \<open>What the two counters of a recommendation count\<close>

text \<open>
  Claim C4 as stated asks that \<open>commonInterests\<close> is the cardinality of the intersection
  of the two interest sets. The interests are an array, taken as it is at registration;
  when alice has \<open>[x, x]\<close> and bob has \<open>[x]\<close>, bob is recommended to alice with
  \<open>commonInterests = 2\<close>, and the intersection has one element.
\<close>

theorem common_interests_counterexample:
  "get_recommendations hex24 lowerHex idA dbDup =
     Inr [\<lparr>rec_username = ''bob'', commonInterests = 2, mutualFriends = 0, rec_id = idB\<rparr>] \<and>
   findById idA dbDup = Some (newUser idA ''alice'' [''x'', ''x'']) \<and>
   findById idB dbDup = Some (newUser idB ''bob'' [''x'']) \<and>
   commonInterests \<lparr>rec_username = ''bob'', commonInterests = 2, mutualFriends = 0, rec_id = idB\<rparr>
     \<noteq> card (set (interests (newUser idB ''bob'' [''x''])) \<inter>
             set (interests (newUser idA ''alice'' [''x'', ''x''])))"
  by (simp add: dbDup_recommendations) (simp add: dbDup_def findById_def newUser_def ids_distinct)

text \<open>
  Claim C4, amended. In a collection with unique ids, for a user \<open>U\<close> addressed by its id
  in the form \<open>toString()\<close> gives (\<open>cast userId = userId\<close>), every entry of the
  recommendations is the only entry with its id, and its id is that of an existing user
  \<open>C\<close>. Its \<open>commonInterests\<close> is the number of entries of the interests array of \<open>U\<close>
  that occur among the interests of \<open>C\<close> (0 when there is none, as for a candidate found by
  the second pass only); this is the cardinality of the intersection when the interests of
  \<open>U\<close> have no repeated entry. Its \<open>mutualFriends\<close> is the number of occurrences of \<open>C\<close> in
  the friends arrays of the existing friends of \<open>U\<close>, each friend taken as often as \<open>U\<close>
  lists it; when the friends arrays of \<open>U\<close> and of those friends have no repeated entry this
  is the number of friends of \<open>U\<close> that list \<open>C\<close> as a friend, and, the friends relation
  being symmetric, the number of users that are friends of both. The two counters are
  computed apart: neither formula mentions the other. The entries the handler returns for
  an id in another spelling are the matter of C5 and are not part of this statement.
\<close>

theorem recommendation_counts:
  assumes "distinct (map uid d)"
    and "cast userId = userId"
    and "get_recommendations isValid cast userId d = Inr out"
    and "findById userId d = Some user"
    and "r \<in> set out"
  shows "length (filter (\<lambda>x. rec_id x = rec_id r) out) = 1 \<and>
    (\<exists>c. findById (rec_id r) d = Some c \<and>
       commonInterests r = length (filter (\<lambda>i. i \<in> set (interests c)) (interests user)) \<and>
       (distinct (interests user) \<longrightarrow>
          commonInterests r = card (set (interests c) \<inter> set (interests user)))) \<and>
    mutualFriends r =
      sum_list (map (\<lambda>f. count_list (friends f) (rec_id r)) (populate (friends user) d)) \<and>
    (distinct (friends user) \<and> (\<forall>f \<in> set (populate (friends user) d). distinct (friends f)) \<longrightarrow>
       mutualFriends r = card {f \<in> set (friends user). rec_id r \<in> friendsOf d f} \<and>
       ((\<forall>x y. x \<in> friendsOf d y \<longleftrightarrow> y \<in> friendsOf d x) \<longrightarrow>
          mutualFriends r = card (set (friends user) \<inter> friendsOf d (rec_id r))))"
proof -
  from assms(3) obtain user' rs where u: "findById (cast userId) d = Some user'"
    and rs: "mutualPass userId (map uid (populate (friends user') d)) d (populate (friends user') d)
       (interestPass user' (map uid (populate (friends user') d))
          (commonInterestUsers (cast userId) user' d) []) = Some rs"
    and out: "out = sort_cmp (map entry rs)"
    by (rule get_recommendations_unfold)
  from u assms(2,4) have same: "user' = user" by simp
  let ?P = "populate (friends user) d"
  let ?fids = "map uid ?P"
  let ?rs1 = "interestPass user ?fids (commonInterestUsers userId user d) []"
  let ?c = "rec_id r"
  have rs': "mutualPass userId ?fids d ?P ?rs1 = Some rs" using rs same assms(2) by simp
  have dk: "distinct (map fst rs)"
    using distinct_mutualPass[OF rs' distinct_interestPass] by simp
  have "r \<in> set (map entry rs)" using assms(5) out by (simp only: set_sort_cmp)
  then obtain p where p: "p \<in> set rs" "r = entry p" by auto
  have "(fst p, snd p) \<in> set rs" using p(1) by simp
  with dk have "map_of rs (fst p) = Some (snd p)" by (rule map_of_is_SomeI)
  then have look: "map_of rs ?c = Some (snd p)"
    using p(2) by (simp add: entry_def)
  have ci: "commonInterests r = ciOf rs ?c" and mf: "mutualFriends r = mfOf rs ?c"
    using look p(2) by (simp_all add: ciOf_def mfOf_def entry_def)
  have key: "?c \<in> fst ` set rs" using look by (rule map_of_Some_key)
  from keys_recommendations[OF rs' key] obtain cu where
    c: "?c \<noteq> userId" "?c \<notin> set ?fids" "findById ?c d = Some cu"
    by auto
  note ie = interest_entry[OF assms(1) c(3) c(1) c(2), of user]
  have "distinct (map rec_id (map entry rs))"
    using dk by (simp only: rec_id_entry)
  then have "distinct (map rec_id out)"
    unfolding out by (simp only: distinct_map_sort_cmp)
  then have once: "length (filter (\<lambda>x. rec_id x = rec_id r) out) = 1"
    using assms(5) by (rule distinct_filter_once)
  have ci': "commonInterests r = length (filter (\<lambda>i. i \<in> set (interests cu)) (interests user))"
    using ci ie ciOf_mutualPass[OF rs', of ?c] by simp
  have cicard: "distinct (interests user) \<Longrightarrow>
      commonInterests r = card (set (interests cu) \<inter> set (interests user))"
  proof -
    assume "distinct (interests user)"
    then have "length (filter (\<lambda>i. i \<in> set (interests cu)) (interests user)) =
        card ({i. i \<in> set (interests cu)} \<inter> set (interests user))"
      by (rule distinct_length_filter)
    with ci' show ?thesis by simp
  qed
  have found: "\<forall>f \<in> set ?P. findById (uid f) d = Some f"
    by (auto dest: populate_found)
  have "mfOf rs ?c = mfOf ?rs1 ?c +
      sum_list (map (\<lambda>f. count_list (map uid (populate (friends f) d)) ?c) ?P)"
    using mfOf_mutualPass[OF rs' found, of ?c] c by simp
  also have "\<dots> = sum_list (map (\<lambda>f. count_list (friends f) ?c) ?P)"
    using ie c(3) by (simp add: count_populate)
  finally have mf': "mutualFriends r = sum_list (map (\<lambda>f. count_list (friends f) ?c) ?P)"
    using mf by simp
  have mfcard: "mutualFriends r = card {f \<in> set (friends user). ?c \<in> friendsOf d f}"
    if "distinct (friends user)" "\<forall>f \<in> set ?P. distinct (friends f)"
    using mf' paths_card[OF that] by simp
  have mfsym: "mutualFriends r = card (set (friends user) \<inter> friendsOf d ?c)"
    if "distinct (friends user)" "\<forall>f \<in> set ?P. distinct (friends f)"
       "\<forall>x y. x \<in> friendsOf d y \<longleftrightarrow> y \<in> friendsOf d x"
  proof -
    have "{f \<in> set (friends user). ?c \<in> friendsOf d f} = set (friends user) \<inter> friendsOf d ?c"
      using that(3) by blast
    with mfcard[OF that(1,2)] show ?thesis by simp
  qed
  show ?thesis
    using once c(3) ci' cicard mf' mfcard mfsym by blast
qed

text \<open>
  The amended C4 for alice in \<open>dbBoth\<close>: carol shares two interests with alice and has
  one friend in common with her, and is recommended once with \<open>commonInterests = 2\<close>,
  \<open>mutualFriends = 1\<close>.
\<close>

theorem recommendation_counts_witness:
  "length (filter (\<lambda>x. rec_id x = idC)
      [\<lparr>rec_username = ''carol'', commonInterests = 2, mutualFriends = 1, rec_id = idC\<rparr>]) = 1 \<and>
   commonInterests \<lparr>rec_username = ''carol'', commonInterests = 2, mutualFriends = 1, rec_id = idC\<rparr>
     = card (set [''y'', ''x''] \<inter> set [''x'', ''y'']) \<and>
   mutualFriends \<lparr>rec_username = ''carol'', commonInterests = 2, mutualFriends = 1, rec_id = idC\<rparr>
     = card (set [idB] \<inter> friendsOf dbBoth idC)"
proof -
  have h1: "distinct (map uid dbBoth)"
    by (simp add: dbBoth_def newUser_def ids_distinct)
  have h4: "\<lparr>rec_username = ''carol'', commonInterests = 2, mutualFriends = 1, rec_id = idC\<rparr>
      \<in> set [\<lparr>rec_username = ''carol'', commonInterests = 2, mutualFriends = 1, rec_id = idC\<rparr>]"
    by simp
  have pop: "populate [idB] dbBoth = [(newUser idB ''bob'' [''z''])\<lparr>friends := [idA, idC]\<rparr>]"
    by (simp add: dbBoth_find)
  show ?thesis
    using recommendation_counts[OF h1 lowerHex_ids(1) dbBoth_recommendations dbBoth_find(1) h4]
      dbBoth_symmetric
    by (simp add: dbBoth_find pop newUser_def ids_distinct)
qed

section \<open>Recommendations exclude the user and their friends\<close>

text \<open>
  Claim C5. The claim asks that a user is never among their own recommendations. alice asks
  for her recommendations in \<open>chain\<close> with her id spelled in upper-case digits. The lookup
  and the \<open>$ne\<close> of the interest query cast the string, so alice is found and the first
  pass leaves her out; the second pass tests \<open>mutualFriendId === userId\<close> on the string as
  sent, so alice, a friend of her friend bob, passes the test and is recommended to
  herself.
\<close>

theorem recommends_self:
  "findById (lowerHex idA_upper) chain = findById idA chain \<and>
   selfView =
     Inr [\<lparr>rec_username = ''alice'', commonInterests = 0, mutualFriends = 1, rec_id = idA\<rparr>,
          \<lparr>rec_username = ''carol'', commonInterests = 0, mutualFriends = 1, rec_id = idC\<rparr>]"
  by (simp add: lowerHex_ids) (simp add: selfView_def chain_eq rec_defs)

section \<open>A second request while one is pending\<close>

text \<open>
  Claim C6. The claim asks that a request of \<open>A\<close> to \<open>B\<close> fails with DuplicateRequest and
  changes nothing when \<open>A\<close> is already in the pending requests of \<open>B\<close>. In \<open>pending\<close> alice
  is in the queue of bob. She asks again with her id spelled in upper-case digits: the
  duplicate guard looks for the string as sent among the stored ids and does not find it,
  the push casts it, and the handler answers 200 with alice twice in the queue of bob and a
  second notification.
\<close>

theorem duplicate_request_stored:
  "idA \<in> requestsOf pending idB \<and>
   serve hex24 lowerHex (SendRequest 2 idA_upper idB) pending =
     ((200, ''Friend request sent''),
      [newUser idA ''alice'' [''x'', ''y''],
       (newUser idB ''bob'' [''x''])\<lparr>friendRequests := [idA, idA],
          notifications := [\<lparr>message = ''alice has sent you a friend request.'', timestamp = 1\<rparr>,
                            \<lparr>message = ''alice has sent you a friend request.'', timestamp = 2\<rparr>]\<rparr>,
       newUser idC ''carol'' []])"
proof -
  have "idA \<in> requestsOf pending idB"
    by (simp add: requestsOf_def pending_find)
  moreover have "serve hex24 lowerHex (SendRequest 2 idA_upper idB) pending =
     ((200, ''Friend request sent''),
      [newUser idA ''alice'' [''x'', ''y''],
       (newUser idB ''bob'' [''x''])\<lparr>friendRequests := [idA, idA],
          notifications := [\<lparr>message = ''alice has sent you a friend request.'', timestamp = 1\<rparr>,
                            \<lparr>message = ''alice has sent you a friend request.'', timestamp = 2\<rparr>]\<rparr>,
       newUser idC ''carol'' []])"
    by (simp add: pending_eq eval_defs)
  ultimately show ?thesis by simp
qed

section \<open>Accept consumes the request\<close>

text \<open>
  Claim C7. For existing distinct users \<open>A\<close> and \<open>B\<close> with \<open>A\<close> in the pending requests of
  \<open>B\<close>: \<open>B\<close> accepting \<open>A\<close> succeeds and removes \<open>A\<close> from the pending requests of \<open>B\<close>, and
  accepting again at once is answered ``No friend request from this user.'' and changes
  nothing.
\<close>

theorem post_accept_consumes:
  assumes "isValid A" "isValid B" "A \<noteq> B"
    and "findById (cast A) d = Some a" "findById (cast B) d = Some b"
    and "A \<in> set (friendRequests b)"
  shows "fst (post_accept isValid cast now B A d) = (200, ''Friend request accepted.'') \<and>
         A \<notin> requestsOf (snd (post_accept isValid cast now B A d)) (cast B) \<and>
         post_accept isValid cast now' B A (snd (post_accept isValid cast now B A d)) =
           ((400, ''No friend request from this user.''), snd (post_accept isValid cast now B A d))"
proof -
  have u: "uid a = cast A" "uid b = cast B"
    using assms(4,5) by (auto dest: findById_Some_uid)
  show ?thesis
  proof (cases "cast A = cast B")
    case True
    with assms(4,5) have "a = b" by simp
    with True assms u show ?thesis
      unfolding post_accept_def requestsOf_def by (simp add: findById_save)
  next
    case False
    with assms u show ?thesis
      unfolding post_accept_def requestsOf_def by (simp add: findById_save)
  qed
qed

text \<open>
  C7 in \<open>pending\<close>: bob accepts alice, then tries again.
\<close>

theorem post_accept_consumes_witness:
  "fst (post_accept hex24 lowerHex 2 idB idA pending) = (200, ''Friend request accepted.'') \<and>
   idA \<notin> requestsOf (snd (post_accept hex24 lowerHex 2 idB idA pending)) (lowerHex idB) \<and>
   post_accept hex24 lowerHex 3 idB idA (snd (post_accept hex24 lowerHex 2 idB idA pending)) =
     ((400, ''No friend request from this user.''), snd (post_accept hex24 lowerHex 2 idB idA pending))"
proof -
  have a: "findById (lowerHex idA) pending = Some (newUser idA ''alice'' [''x'', ''y''])"
    by (simp add: lowerHex_ids pending_find)
  have b: "findById (lowerHex idB) pending = Some ((newUser idB ''bob'' [''x''])\<lparr>friendRequests := [idA],
        notifications := [\<lparr>message = ''alice has sent you a friend request.'', timestamp = 1\<rparr>]\<rparr>)"
    by (simp add: lowerHex_ids pending_find)
  show ?thesis
    by (rule post_accept_consumes[OF hex24_ids(1) hex24_ids(2) ids_distinct(1) a b]) simp
qed

section \<open>Order of the recommendations\<close>

text \<open>
  Claim C8. The recommendations are in descending order of \<open>commonInterests\<close> and, among
  equal \<open>commonInterests\<close>, in descending order of \<open>mutualFriends\<close>. The output is a
  function of the user id and the collection (in its natural order), so the same input
  gives the same order.
\<close>

theorem recommendations_sorted:
  assumes "get_recommendations isValid cast userId d = Inr out"
  shows "sorted_wrt ranked out"
  using assms unfolding get_recommendations_def
  by (auto simp: Let_def sorted_sort_cmp split: if_splits option.splits)

text \<open>
  C8 for alice in \<open>dbRank\<close>: carol (two common interests) comes before bob (one), the
  reverse of the order in which they were found.
\<close>

theorem recommendations_sorted_witness:
  "sorted_wrt ranked
     [\<lparr>rec_username = ''carol'', commonInterests = 2, mutualFriends = 0, rec_id = idC\<rparr>,
      \<lparr>rec_username = ''bob'', commonInterests = 1, mutualFriends = 0, rec_id = idB\<rparr>]"
  by (rule recommendations_sorted[OF dbRank_recommendations])

section \<open>Notifications are only appended\<close>

text \<open>
  Claim C9. Whatever call of the workflow is served, every user of the collection is still
  there afterwards and the notifications it had are a prefix of the notifications it has.
\<close>

theorem notifications_append_only:
  assumes "findById i d = Some u"
  shows "\<exists>u'. findById i (snd (serve isValid cast c d)) = Some u' \<and>
               prefix (notifications u) (notifications u')"
proof (cases c)
  case (SendRequest t a b)
  show ?thesis using assms unfolding SendRequest
    by (auto simp: post_request_def split: option.splits intro!: save_notifications)
next
  case (AcceptRequest t a b)
  show ?thesis using assms unfolding AcceptRequest
    by (auto simp: post_accept_def split: option.splits intro!: save2_notifications)
next
  case (RejectRequest t a b)
  show ?thesis using assms unfolding RejectRequest
    by (auto simp: post_reject_def split: option.splits intro!: save2_notifications)
next
  case (Unfriend t a b)
  show ?thesis using assms unfolding Unfriend
    apply (simp add: post_unfriend_def split: option.splits)
    apply (intro conjI impI allI)
     apply (rule save_notifications; simp)
    apply (rule save2_notifications; simp)
    done
qed

text \<open>
  C9 for bob in \<open>pending\<close> when alice unfriends him: the notification of the request
  stays first.
\<close>

theorem notifications_append_only_witness:
  "\<exists>u'. findById idB (snd (serve hex24 lowerHex (Unfriend 2 idA idB) pending)) = Some u' \<and>
     prefix [\<lparr>message = ''alice has sent you a friend request.'', timestamp = 1\<rparr>] (notifications u')"
  using notifications_append_only[OF pending_find(2), of hex24 lowerHex "Unfriend 2 idA idB"]
  by simp

section \<open>Frame of a successful request\<close>

text \<open>
  Claim C10. The claim asks that a successful request changes the record of the target
  only and leaves the record of the requester as it was. alice sends a request with her
  own id as \<open>friendId\<close> and the same id spelled in upper-case digits as \<open>userId\<close>. The
  self guard compares the two strings with \<open>===\<close> and lets them pass, both lookups cast
  them and find alice, and the handler answers 200: the record of alice, the requester,
  now has alice in its pending requests and a notification that alice has sent her a friend
  request.
\<close>

theorem self_request_stored:
  "findById (lowerHex idA_upper) db0 = findById (lowerHex idA) db0 \<and>
   fst (serve hex24 lowerHex (SendRequest 1 idA_upper idA) db0) = (200, ''Friend request sent'') \<and>
   findById idA (snd (serve hex24 lowerHex (SendRequest 1 idA_upper idA) db0)) =
     Some ((newUser idA ''alice'' [''x'', ''y''])\<lparr>friendRequests := [idA],
        notifications := [\<lparr>message = ''alice has sent you a friend request.'', timestamp = 1\<rparr>]\<rparr>)"
  by (simp add: lowerHex_ids) (simp add: eval_defs)

end
